theory Spec2Isabelle
  imports Main "HOL-Library.Word"
begin

unbundle bit_operations_syntax

section \<open>The declarations of nipkov.h\<close>

text \<open>
  The header declares the configuration constants and the global variables of the
  Nipkow disk player for the Arduino Mega 2560 (an 8-bit AVR): there \<^verbatim>\<open>byte\<close> is 8 bits,
  \<^verbatim>\<open>int\<close> and \<^verbatim>\<open>unsigned int\<close> are 16 bits, \<^verbatim>\<open>unsigned long\<close> is 32 bits and
  \<^verbatim>\<open>float\<close> is a 32-bit IEEE pattern. The bodies of \<^verbatim>\<open>Pulse_Event\<close>,
  \<^verbatim>\<open>loadpicture\<close>, \<^verbatim>\<open>OpenNextVideoFile\<close> and of the timer handler are not part of
  the header, which only gives the three prototypes.
\<close>

type_synonym byte = "8 word"
type_synonym int16 = "16 word"
type_synonym uint16 = "16 word"
type_synonym ulong = "32 word"
type_synonym float32 = "32 word"

subsection \<open>Constants and macros\<close>

definition Version :: string where
  "Version = ''14''"

definition numberpics :: byte where
  "numberpics = 5"

definition pinPulse :: int where
  "pinPulse = 2"

definition SDchipSelect :: int where
  "SDchipSelect = 41"

definition MODE_BUTTONPIN :: int where
  "MODE_BUTTONPIN = 13"

definition PLAY_BUTTONPIN :: int where
  "PLAY_BUTTONPIN = 12"

definition NEXT_BUTTONPIN :: int where
  "NEXT_BUTTONPIN = 11"

text \<open>\<^verbatim>\<open>#define FRAMESIZE 3072\<close> and \<^verbatim>\<open>const int pixelsframe = 1024\<close>.\<close>

definition FRAMESIZE :: nat where
  "FRAMESIZE = 3072"

definition pixelsframe :: int where
  "pixelsframe = 1024"

text \<open>
  \<^verbatim>\<open>#define BUFFERSIZE FRAMESIZE*2\<close> and \<^verbatim>\<open>#define HALFBUF FRAMESIZE\<close>. The macro
  body has no parentheses; its only use, \<^verbatim>\<open>BUFFERSIZE+100\<close>, expands to
  \<^verbatim>\<open>3072*2+100\<close>, where the product binds first.
\<close>

definition BUFFERSIZE :: nat where
  "BUFFERSIZE = FRAMESIZE * 2"

definition HALFBUF :: nat where
  "HALFBUF = FRAMESIZE"

text \<open>The array bound of \<^verbatim>\<open>byte framebuffer[BUFFERSIZE+100]\<close>.\<close>

definition framebuffer_bound :: nat where
  "framebuffer_bound = BUFFERSIZE + 100"

subsection \<open>Global variables\<close>

text \<open>
  One field for each global variable of the header, in the order of declaration. The
  library objects \<^verbatim>\<open>SD\<close>, \<^verbatim>\<open>file\<close> and \<^verbatim>\<open>dir\<close> belong to SdFat and are left out.
\<close>

record nipkov =
  adjust_cycles :: ulong
  framebuffer :: "byte list"
  loadbuffer_part0 :: bool
  loadbuffer_part1 :: bool
  PeriodBetweenPulses :: ulong
  LastMeasured :: ulong
  fps :: float32
  pixerror :: int16
  per :: float32
  cycles :: ulong
  pixel :: int16
  startpix :: int16
  mode :: byte
  pic :: uint16
  frames :: uint16
  play :: bool
  cmdreceived :: bool
  inputString :: string
  logfps :: bool

text \<open>
  The state before \<^verbatim>\<open>setup\<close> runs: every initialiser of the header, and zero for the
  variables declared without one (C++ zero-initialises objects of static storage
  duration; the all-zero float pattern is +0.0).
\<close>

definition startup :: nipkov where
  "startup = \<lparr>
     adjust_cycles = 94,
     framebuffer = replicate framebuffer_bound 0,
     loadbuffer_part0 = False,
     loadbuffer_part1 = False,
     PeriodBetweenPulses = 1000,
     LastMeasured = 0,
     fps = 0,
     pixerror = 0,
     per = 0,
     cycles = 0,
     pixel = 0,
     startpix = 0,
     mode = 1,
     pic = 1,
     frames = 0,
     play = True,
     cmdreceived = False,
     inputString = [],
     logfps = False \<rparr>"

subsection \<open>Storage records\<close>

text \<open>
  Modelled from the spec: the size of one Frame record of the block storage source. The
  code that reads the SD card is not in the header; the external-interface section gives
  the record as "pixel-count x 3 bytes each".
\<close>

definition frame_record_size :: nat where
  "frame_record_size = nat pixelsframe * 3"

section \<open>The DAC output ports\<close>

text \<open>
  The pin table of the header gives each channel one port group of six pins: pins 2 to 7
  of port A carry bits R0 to R5 of the red ladder, pins 2 to 7 of port C carry G0 to G5,
  pins 2 to 7 of port L carry B0 to B5. A field below holds the value written to the
  group of its port, bit 0 of the value being the lowest ladder bit.
\<close>

record ports =
  PORTA :: byte
  PORTC :: byte
  PORTL :: byte

text \<open>The levels that the red, green and blue ladder receive.\<close>

definition dac_levels :: "ports \<Rightarrow> byte \<times> byte \<times> byte" where
  "dac_levels out = (PORTA out, PORTC out, PORTL out)"

section \<open>The components whose code is not in the header\<close>

subsection \<open>Pixel Clock\<close>

text \<open>
  Modelled from the spec: the index advance of the Pixel Clock; the timer handler is not
  in the header. "Advance p; on wraparound (reaching the pixel count), reset to 0."
  The index is the header's \<^verbatim>\<open>int pixel\<close>, a signed 16-bit value compared with
  \<^verbatim>\<open>pixelsframe\<close>.
\<close>

definition wraparound :: "int16 \<Rightarrow> bool" where
  "wraparound p = (pixelsframe \<le> sint (p + 1))"

definition advance_pixel :: "int16 \<Rightarrow> int16" where
  "advance_pixel p = (if wraparound p then 0 else p + 1)"

text \<open>\<open>n\<close> firings of the timer on the index alone, counting the wraparounds.\<close>

fun pixel_clock :: "nat \<Rightarrow> int16 \<times> nat \<Rightarrow> int16 \<times> nat" where
  "pixel_clock 0 pw = pw"
| "pixel_clock (Suc n) (p, w) =
     pixel_clock n (advance_pixel p, if wraparound p then Suc w else w)"

definition pixel_in_frame :: "int16 \<Rightarrow> bool" where
  "pixel_in_frame p = (0 \<le> sint p \<and> sint p < pixelsframe)"

subsection \<open>DAC Output Mapper\<close>

text \<open>
  Modelled from the spec: the clamp of one channel value to the DAC resolution, "6 bits:
  0-63". "Values never exceed the DAC's representable range; any wider input must be
  truncated/clamped at the point of write", and a channel value out of range is "clamped
  at the DAC Output Mapper boundary; never propagated as an error".
\<close>

definition clamp_channel :: "byte \<Rightarrow> byte" where
  "clamp_channel v = (if 63 < v then 63 else v)"

definition clamped :: "byte \<times> byte \<times> byte \<Rightarrow> byte \<times> byte \<times> byte" where
  "clamped px = (case px of (r, g, b) \<Rightarrow> (clamp_channel r, clamp_channel g, clamp_channel b))"

text \<open>
  Modelled from the spec: the DAC Output Mapper, which is part of the timer handler.
  "Given a Pixel, writes its red, green, blue intensities to three independent output
  port groups, each group carrying one channel's full bit-width in parallel", each
  clamped at the write. It has no error result.
\<close>

definition DAC_Output_Mapper :: "byte \<times> byte \<times> byte \<Rightarrow> ports" where
  "DAC_Output_Mapper px =
     (case px of (r, g, b) \<Rightarrow>
        \<lparr>PORTA = clamp_channel r, PORTC = clamp_channel g, PORTL = clamp_channel b\<rparr>)"

text \<open>
  Modelled from the spec: the read side of the Frame Buffer. A frame is "an ordered
  sequence of Pixels" of three bytes each, and the Pixel Clock emits "the current pixel
  (index p into the active Frame Buffer region)"; the active region starts at the
  header's \<^verbatim>\<open>startpix\<close>. The index is computed in 16-bit arithmetic; a read outside the
  array gives \<open>None\<close>.
\<close>

definition active_pixel :: "nipkov \<Rightarrow> (byte \<times> byte \<times> byte) option" where
  "active_pixel s =
     (let i = sint (startpix s + pixel s * 3); fb = framebuffer s
      in if 0 \<le> i \<and> nat i + 2 < length fb
         then Some (fb ! nat i, fb ! (nat i + 1), fb ! (nat i + 2))
         else None)"

text \<open>
  Modelled from the spec: one firing of the Pixel Clock. "Emit the current pixel to the
  DAC Output Mapper. Advance p; on wraparound, reset to 0." When the two regions are
  exchanged is left to \<open>swap_regions\<close> below.
\<close>

definition Pixel_Clock :: "nipkov \<Rightarrow> ports option \<times> nipkov" where
  "Pixel_Clock s =
     (map_option DAC_Output_Mapper (active_pixel s), s\<lparr>pixel := advance_pixel (pixel s)\<rparr>)"

text \<open>\<open>n\<close> firings in a row, with the port values of each.\<close>

fun scan :: "nat \<Rightarrow> nipkov \<Rightarrow> ports option list \<times> nipkov" where
  "scan 0 s = ([], s)"
| "scan (Suc n) s =
     (case Pixel_Clock s of (out, s') \<Rightarrow>
        (case scan n s' of (outs, s'') \<Rightarrow> (out # outs, s'')))"

subsection \<open>Frame Loader and Frame Buffer\<close>

text \<open>
  Modelled from the spec: the storage primitive "read next N bytes into buffer X",
  writing the bytes one after the other from offset \<open>i\<close> on.
\<close>

fun store_bytes :: "nat \<Rightarrow> byte list \<Rightarrow> byte list \<Rightarrow> byte list" where
  "store_bytes i [] fb = fb"
| "store_bytes i (b # bs) fb = store_bytes (Suc i) bs (fb[i := b])"

text \<open>
  Modelled from the spec: the Frame Loader; \<^verbatim>\<open>loadpicture\<close> and the video reader are not
  in the header. It "reads the next Frame's worth of pixel bytes from a block-storage
  source" into the region at byte offset \<open>off\<close>; a short read stores what it got.
\<close>

definition Frame_Loader :: "nat \<Rightarrow> byte list \<Rightarrow> nipkov \<Rightarrow> nipkov" where
  "Frame_Loader off data s =
     s\<lparr>framebuffer := store_bytes off (take FRAMESIZE data) (framebuffer s)\<rparr>"

text \<open>
  Modelled from the spec: the two regions and their exchange. The active region starts
  at \<^verbatim>\<open>startpix\<close>, the standby region is the other half of the double buffer, and "a
  swap operation atomically exchanges which physical region is active vs. standby".
\<close>

definition standby_offset :: "nipkov \<Rightarrow> int16" where
  "standby_offset s = (if startpix s = 0 then word_of_nat HALFBUF else 0)"

definition swap_regions :: "nipkov \<Rightarrow> nipkov" where
  "swap_regions s = s\<lparr>startpix := standby_offset s\<rparr>"

text \<open>The three bytes of pixel \<open>p\<close> in a storage record.\<close>

definition stored_pixel :: "byte list \<Rightarrow> nat \<Rightarrow> byte \<times> byte \<times> byte" where
  "stored_pixel data p = (data ! (3 * p), data ! (3 * p + 1), data ! (3 * p + 2))"

section \<open>Sizes\<close>

lemma framebuffer_bound_value: "framebuffer_bound = 6244"
  by (simp add: framebuffer_bound_def BUFFERSIZE_def FRAMESIZE_def)

lemma length_startup_framebuffer: "length (framebuffer startup) = framebuffer_bound"
  by (simp add: startup_def)

text \<open>
  Claim C1, as stated: the framebuffer allocated at startup holds exactly two frames,
  2 x FRAMESIZE bytes, and nothing more. It does not: the array is 100 bytes longer.
\<close>

theorem framebuffer_not_two_frames:
  "length (framebuffer startup) \<noteq> 2 * FRAMESIZE"
  by (simp add: startup_def framebuffer_bound_def BUFFERSIZE_def FRAMESIZE_def)

text \<open>
  Claim C1, amended: the framebuffer allocated at startup holds the two frame slots,
  2 x FRAMESIZE = 6144 bytes, followed by 100 spare bytes for overruns, 6244 bytes in all;
  the two slots start at offsets 0 and HALFBUF and fit inside it.
\<close>

theorem framebuffer_two_frames_and_spare:
  "length (framebuffer startup) = 2 * FRAMESIZE + 100
   \<and> length (framebuffer startup) = 6244
   \<and> HALFBUF + FRAMESIZE = BUFFERSIZE
   \<and> BUFFERSIZE = 6144
   \<and> BUFFERSIZE + 100 = length (framebuffer startup)"
  by (simp add: startup_def framebuffer_bound_def BUFFERSIZE_def HALFBUF_def FRAMESIZE_def)

text \<open>
  Claim C2: a frame holds pixelsframe = 1024 pixels of 3 bytes each; FRAMESIZE is
  pixelsframe x 3 = 3072 bytes, one storage record is FRAMESIZE bytes, and so is one half
  of the double buffer. Both are constants: they are no fields of the state, so no
  operation on the state changes them.
\<close>

theorem frame_size_fixed:
  "pixelsframe = 1024
   \<and> int FRAMESIZE = pixelsframe * 3
   \<and> FRAMESIZE = 3072
   \<and> frame_record_size = FRAMESIZE
   \<and> HALFBUF = FRAMESIZE"
  by (simp add: pixelsframe_def FRAMESIZE_def frame_record_size_def HALFBUF_def)

text \<open>
  Claim C10: the state at startup, before any event: picture mode (mode = 1), picture
  index 1, play set, frame counter 0, pixel index 0, both pre-load flags cleared, and an
  inter-pulse period of 1000 microseconds, which is not zero.
\<close>

theorem startup_state:
  "mode startup = 1
   \<and> pic startup = 1
   \<and> play startup = True
   \<and> frames startup = 0
   \<and> pixel startup = 0
   \<and> loadbuffer_part0 startup = False
   \<and> loadbuffer_part1 startup = False
   \<and> PeriodBetweenPulses startup = 1000
   \<and> PeriodBetweenPulses startup \<noteq> 0
   \<and> unat (PeriodBetweenPulses startup) = 1000"
  by (simp add: startup_def)

section \<open>Pixel index\<close>

lemma sint_succ_in_frame:
  fixes p :: int16
  assumes "0 \<le> sint p" and "sint p < 1024"
  shows "sint (p + 1) = sint p + 1"
proof -
  have "sint (p + 1) = signed_take_bit (LENGTH(16) - 1) (sint p + sint (1 :: int16))"
    by (rule sint_word_add)
  also have "\<dots> = signed_take_bit 15 (sint p + 1)"
    by simp
  also have "\<dots> = sint p + 1"
    using assms by (intro signed_take_bit_int_eq_self) simp_all
  finally show ?thesis .
qed

lemma wraparound_iff:
  "pixel_in_frame p \<Longrightarrow> wraparound p \<longleftrightarrow> sint p = 1023"
  by (auto simp: pixel_in_frame_def wraparound_def pixelsframe_def sint_succ_in_frame)

lemma sint_advance_pixel:
  "pixel_in_frame p \<Longrightarrow> sint (advance_pixel p) = (sint p + 1) mod 1024"
  by (simp add: advance_pixel_def wraparound_iff)
     (simp add: pixel_in_frame_def pixelsframe_def sint_succ_in_frame)

lemma advance_pixel_in_frame:
  "pixel_in_frame p \<Longrightarrow> pixel_in_frame (advance_pixel p)"
  using sint_advance_pixel [of p] by (simp add: pixel_in_frame_def pixelsframe_def)

lemma pixel_clock_closed:
  "pixel_in_frame p \<Longrightarrow>
     pixel_in_frame (fst (pixel_clock n (p, w)))
     \<and> sint (fst (pixel_clock n (p, w))) = (sint p + int n) mod 1024
     \<and> int (snd (pixel_clock n (p, w))) = int w + (sint p + int n) div 1024"
proof (induction n arbitrary: p w)
  case 0
  then show ?case by (simp add: pixel_in_frame_def pixelsframe_def)
next
  case (Suc n)
  have inf: "pixel_in_frame (advance_pixel p)"
    using Suc.prems by (rule advance_pixel_in_frame)
  note ih = Suc.IH [OF inf]
  show ?case
  proof (cases "wraparound p")
    case True
    then have p: "sint p = 1023" using Suc.prems by (simp add: wraparound_iff)
    have a: "sint (advance_pixel p) = 0" using True by (simp add: advance_pixel_def)
    show ?thesis using ih [of "Suc w"] True p a by simp
  next
    case False
    then have p: "sint p \<noteq> 1023" using Suc.prems by (simp add: wraparound_iff)
    have a: "sint (advance_pixel p) = sint p + 1"
      using False Suc.prems
      by (simp add: advance_pixel_def sint_succ_in_frame pixel_in_frame_def pixelsframe_def)
    show ?thesis using ih [of w] False a by (simp add: add.commute add.left_commute)
  qed
qed

lemma snd_scan_Suc:
  "snd (scan (Suc n) s) = snd (scan n (s\<lparr>pixel := advance_pixel (pixel s)\<rparr>))"
  by (simp add: Pixel_Clock_def split: prod.splits)

lemma pixel_scan: "pixel (snd (scan n s)) = fst (pixel_clock n (pixel s, w))"
proof (induction n arbitrary: s w)
  case 0
  show ?case by simp
next
  case (Suc n)
  have "pixel (snd (scan (Suc n) s))
      = fst (pixel_clock n (advance_pixel (pixel s), if wraparound (pixel s) then Suc w else w))"
    unfolding snd_scan_Suc
    using Suc.IH [of "s\<lparr>pixel := advance_pixel (pixel s)\<rparr>"
        "if wraparound (pixel s) then Suc w else w"]
    by simp
  then show ?case by simp
qed

text \<open>
  Claim C3: the pixel index is always in the range from 0 up to, not including,
  N = pixelsframe = 1024: it is at startup, every advance keeps it there, and so does
  every run of the Pixel Clock from startup. Starting from index 0, the first N - 1
  ticks reach the indices 1 to N - 1 without a wraparound, and after exactly N ticks
  one wraparound has occurred and the index is 0 again.
\<close>

theorem pixel_index_wraps_once:
  "pixel_in_frame (pixel startup)
   \<and> (\<forall>p. pixel_in_frame p \<longrightarrow> pixel_in_frame (advance_pixel p))
   \<and> (\<forall>n. pixel_in_frame (pixel (snd (scan n startup))))
   \<and> pixel_clock (nat pixelsframe) (0, 0) = (0, 1)
   \<and> (\<forall>k < nat pixelsframe.
         snd (pixel_clock k (0, 0)) = 0 \<and> sint (fst (pixel_clock k (0, 0))) = int k)"
proof -
  have zero: "pixel_in_frame 0"
    by (simp add: pixel_in_frame_def pixelsframe_def)
  have start: "pixel_in_frame (pixel startup)"
    using zero by (simp add: startup_def)
  have run: "pixel_in_frame (pixel (snd (scan n startup)))" for n
    using pixel_clock_closed [OF start, of n 0] by (simp add: pixel_scan [of n startup 0])
  have full: "pixel_clock (nat pixelsframe) (0, 0) = (0, 1)"
  proof -
    let ?r = "pixel_clock 1024 (0, 0)"
    from pixel_clock_closed [OF zero, of 1024 0]
    have "sint (fst ?r) = 0" and "int (snd ?r) = 1" by simp_all
    then have "word_of_int (sint (fst ?r)) = (0 :: int16)" and "snd ?r = 1" by simp_all
    then have "fst ?r = 0" and "snd ?r = 1" by simp_all
    then have "?r = (0, 1)" by (simp add: prod_eq_iff)
    then show ?thesis by (simp add: pixelsframe_def)
  qed
  have before: "snd (pixel_clock k (0, 0)) = 0 \<and> sint (fst (pixel_clock k (0, 0))) = int k"
    if "k < nat pixelsframe" for k
  proof -
    from that have k: "int k < 1024" by (simp add: pixelsframe_def)
    from pixel_clock_closed [OF zero, of k 0] k
    have "sint (fst (pixel_clock k (0, 0))) = int k" and "int (snd (pixel_clock k (0, 0))) = 0"
      by simp_all
    then show ?thesis by simp
  qed
  show ?thesis using start advance_pixel_in_frame run full before by blast
qed

theorem pixel_index_wraps_once_witness:
  "pixel_in_frame 1023 \<and> pixel_in_frame (advance_pixel 1023)
   \<and> (1023 :: nat) < nat pixelsframe
   \<and> snd (pixel_clock 1023 (0, 0)) = 0 \<and> sint (fst (pixel_clock 1023 (0, 0))) = 1023"
proof -
  have last: "pixel_in_frame 1023"
    by (simp add: pixel_in_frame_def pixelsframe_def)
  have less: "(1023 :: nat) < nat pixelsframe"
    by (simp add: pixelsframe_def)
  from pixel_index_wraps_once last have "pixel_in_frame (advance_pixel 1023)"
    by blast
  moreover from pixel_index_wraps_once less
  have "snd (pixel_clock 1023 (0, 0)) = 0 \<and> sint (fst (pixel_clock 1023 (0, 0))) = int 1023"
    by blast
  ultimately show ?thesis using last less by simp
qed

section \<open>DAC levels\<close>

lemma unat_clamp_channel: "unat (clamp_channel v) = min (unat v) 63"
  by (simp add: clamp_channel_def word_less_nat_alt min_def)

lemma clamp_channel_le: "unat (clamp_channel v) \<le> 63"
  by (simp add: unat_clamp_channel)

lemma Pixel_Clock_emits:
  "fst (Pixel_Clock s) = Some out \<Longrightarrow> \<exists>px. active_pixel s = Some px \<and> out = DAC_Output_Mapper px"
  by (auto simp: Pixel_Clock_def)

text \<open>
  Claim C5: for every pixel emitted, each of the three channel values written to the
  DAC port groups lies in the 6-bit range 0 to 63, whatever bytes the frame buffer
  holds. A value of at most 63 is written as it is and a wider value is clamped to 63 at
  the write; a pixel with a wider value is emitted like any other, without an error.
\<close>

theorem dac_output_clamped:
  "unat (PORTA (DAC_Output_Mapper (r, g, b))) = min (unat r) 63
   \<and> unat (PORTC (DAC_Output_Mapper (r, g, b))) = min (unat g) 63
   \<and> unat (PORTL (DAC_Output_Mapper (r, g, b))) = min (unat b) 63
   \<and> unat (PORTA (DAC_Output_Mapper (r, g, b))) \<le> 63
   \<and> unat (PORTC (DAC_Output_Mapper (r, g, b))) \<le> 63
   \<and> unat (PORTL (DAC_Output_Mapper (r, g, b))) \<le> 63
   \<and> (\<forall>s out. fst (Pixel_Clock s) = Some out \<longrightarrow>
         unat (PORTA out) \<le> 63 \<and> unat (PORTC out) \<le> 63 \<and> unat (PORTL out) \<le> 63)
   \<and> (\<forall>s. active_pixel s = Some (r, g, b) \<longrightarrow>
         fst (Pixel_Clock s) = Some (DAC_Output_Mapper (r, g, b)))"
proof -
  have mapper: "unat (PORTA (DAC_Output_Mapper (r, g, b))) = min (unat r) 63"
    "unat (PORTC (DAC_Output_Mapper (r, g, b))) = min (unat g) 63"
    "unat (PORTL (DAC_Output_Mapper (r, g, b))) = min (unat b) 63" for r g b
    by (simp_all add: DAC_Output_Mapper_def unat_clamp_channel)
  have emitted: "unat (PORTA out) \<le> 63 \<and> unat (PORTC out) \<le> 63 \<and> unat (PORTL out) \<le> 63"
    if "fst (Pixel_Clock s) = Some out" for s out
  proof -
    from that obtain px where "out = DAC_Output_Mapper px"
      using Pixel_Clock_emits by blast
    then show ?thesis
      by (cases px) (simp add: mapper)
  qed
  have no_error: "fst (Pixel_Clock s) = Some (DAC_Output_Mapper (r, g, b))"
    if "active_pixel s = Some (r, g, b)" for s
    using that by (simp add: Pixel_Clock_def)
  show ?thesis
    using mapper [of r g b] emitted no_error by simp
qed

theorem dac_output_clamped_witness:
  "active_pixel (Frame_Loader 0 [255, 64, 7] startup) = Some (255, 64, 7)
   \<and> fst (Pixel_Clock (Frame_Loader 0 [255, 64, 7] startup))
       = Some \<lparr>PORTA = 63, PORTC = 63, PORTL = 7\<rparr>
   \<and> unat (PORTA \<lparr>PORTA = 63, PORTC = 63, PORTL = (7 :: byte)\<rparr>) \<le> 63"
proof -
  let ?s = "Frame_Loader 0 [255, 64, 7] startup"
  have read: "active_pixel ?s = Some (255, 64, 7)"
    by (simp add: active_pixel_def Frame_Loader_def startup_def framebuffer_bound_value
        FRAMESIZE_def)
  with dac_output_clamped [of 255 64 7]
  have out: "fst (Pixel_Clock ?s) = Some (DAC_Output_Mapper (255, 64, 7))"
    by blast
  have "DAC_Output_Mapper (255, 64, 7) = \<lparr>PORTA = 63, PORTC = 63, PORTL = 7\<rparr>"
    by (simp add: DAC_Output_Mapper_def clamp_channel_def)
  with out have emitted: "fst (Pixel_Clock ?s) = Some \<lparr>PORTA = 63, PORTC = 63, PORTL = 7\<rparr>"
    by simp
  with dac_output_clamped [of 255 64 7]
  have "unat (PORTA \<lparr>PORTA = 63, PORTC = 63, PORTL = (7 :: byte)\<rparr>) \<le> 63"
    by blast
  with read emitted show ?thesis by simp
qed

section \<open>Loading and scanning a frame\<close>

lemma length_store_bytes [simp]: "length (store_bytes i bs fb) = length fb"
  by (induction bs arbitrary: i fb) simp_all

lemma store_bytes_below: "k < i \<Longrightarrow> store_bytes i bs fb ! k = fb ! k"
  by (induction bs arbitrary: i fb) simp_all

lemma store_bytes_nth:
  "j < length bs \<Longrightarrow> i + length bs \<le> length fb \<Longrightarrow> store_bytes i bs fb ! (i + j) = bs ! j"
proof (induction bs arbitrary: i j fb)
  case Nil
  then show ?case by simp
next
  case (Cons b bs)
  show ?case
  proof (cases j)
    case 0
    then show ?thesis using Cons.prems by (simp add: store_bytes_below)
  next
    case (Suc j')
    then show ?thesis using Cons.prems Cons.IH [of j' "Suc i" "fb[i := b]"] by simp
  qed
qed

lemma sint_of_nat_small: "k < 32768 \<Longrightarrow> sint (word_of_nat k :: int16) = int k"
proof -
  assume k: "k < 32768"
  have "sint (word_of_int (int k) :: int16) = signed_take_bit (LENGTH(16) - 1) (int k)"
    by (rule sint_sbintrunc')
  also have "\<dots> = int k"
    using k by (intro signed_take_bit_int_eq_self) simp_all
  finally show ?thesis by simp
qed

lemma pixel_in_frame_of_nat: "i < 1024 \<Longrightarrow> pixel_in_frame (word_of_nat i)"
  by (simp add: pixel_in_frame_def pixelsframe_def sint_of_nat_small)

lemma advance_pixel_of_nat:
  assumes "Suc i < 1024"
  shows "advance_pixel (word_of_nat i) = word_of_nat (Suc i)"
proof -
  from assms have i: "i < 1024" by simp
  have "sint (advance_pixel (word_of_nat i)) = (sint (word_of_nat i :: int16) + 1) mod 1024"
    using i by (intro sint_advance_pixel pixel_in_frame_of_nat)
  also have "\<dots> = int (Suc i)"
    using assms by (simp add: sint_of_nat_small)
  finally have "word_of_int (sint (advance_pixel (word_of_nat i)))
      = (word_of_int (int (Suc i)) :: int16)"
    by simp
  then show ?thesis by simp
qed

lemma active_pixel_at:
  assumes sp: "startpix s = word_of_nat off" and off: "off \<le> HALFBUF"
    and px: "pixel s = word_of_nat p" and p: "p < 1024"
    and len: "length (framebuffer s) = framebuffer_bound"
  shows "active_pixel s =
     Some (framebuffer s ! (off + 3 * p), framebuffer s ! (off + 3 * p + 1),
           framebuffer s ! (off + 3 * p + 2))"
proof -
  have small: "off + 3 * p < 32768" "off + 3 * p + 2 < framebuffer_bound"
    using off p by (simp_all add: HALFBUF_def FRAMESIZE_def framebuffer_bound_value)
  have "startpix s + pixel s * 3 = (word_of_nat (off + 3 * p) :: int16)"
    by (simp add: sp px mult.commute)
  then have "sint (startpix s + pixel s * 3) = int (off + 3 * p)"
    using small(1) by (simp only: sint_of_nat_small)
  then have idx: "0 \<le> sint (startpix s + pixel s * 3)"
      "nat (sint (startpix s + pixel s * 3)) = off + 3 * p"
    by simp_all
  show ?thesis
    unfolding active_pixel_def Let_def idx using small(2) len idx(1) by simp
qed

lemma fst_scan_Suc:
  "fst (scan (Suc n) s) = fst (Pixel_Clock s) # fst (scan n (snd (Pixel_Clock s)))"
  by (simp split: prod.splits)

lemma scan_emits:
  assumes "startpix s = word_of_nat off" and "off \<le> HALFBUF"
    and "pixel s = word_of_nat i" and "i + n \<le> 1024"
    and "length (framebuffer s) = framebuffer_bound"
  shows "fst (scan n s) =
     map (\<lambda>p. Some (DAC_Output_Mapper
            (framebuffer s ! (off + 3 * p), framebuffer s ! (off + 3 * p + 1),
             framebuffer s ! (off + 3 * p + 2)))) [i..<i + n]"
  using assms
proof (induction n arbitrary: s i)
  case 0
  then show ?case by simp
next
  case (Suc n)
  define f where "f = (\<lambda>p. Some (DAC_Output_Mapper
            (framebuffer s ! (off + 3 * p), framebuffer s ! (off + 3 * p + 1),
             framebuffer s ! (off + 3 * p + 2))))"
  let ?s' = "s\<lparr>pixel := advance_pixel (pixel s)\<rparr>"
  from Suc.prems have i: "i < 1024" by simp
  have "active_pixel s =
     Some (framebuffer s ! (off + 3 * i), framebuffer s ! (off + 3 * i + 1),
           framebuffer s ! (off + 3 * i + 2))"
    using Suc.prems i by (intro active_pixel_at) simp_all
  then have out: "fst (Pixel_Clock s) = f i"
    by (simp add: Pixel_Clock_def f_def)
  have next_state: "snd (Pixel_Clock s) = ?s'"
    by (simp add: Pixel_Clock_def)
  have rest: "fst (scan n ?s') = map f [Suc i..<Suc i + n]"
  proof (cases n)
    case 0
    then show ?thesis by simp
  next
    case (Suc m)
    with Suc.prems have "Suc i < 1024" by simp
    then have "pixel ?s' = word_of_nat (Suc i)"
      using Suc.prems by (simp add: advance_pixel_of_nat)
    then show ?thesis
      using Suc.IH [of ?s' "Suc i"] Suc.prems by (simp add: f_def)
  qed
  have "[i..<i + Suc n] = i # [Suc i..<i + Suc n]"
    by (rule upt_conv_Cons) simp
  then have split: "[i..<i + Suc n] = i # [Suc i..<Suc i + n]"
    by simp
  have "fst (scan (Suc n) s) = f i # map f [Suc i..<Suc i + n]"
    by (simp only: fst_scan_Suc out next_state rest)
  also have "\<dots> = map f [i..<i + Suc n]"
    by (simp only: split list.map)
  finally show ?case by (simp only: f_def)
qed

lemma dac_levels_mapper: "dac_levels (DAC_Output_Mapper px) = clamped px"
  by (simp add: dac_levels_def DAC_Output_Mapper_def clamped_def split: prod.splits)

lemma Frame_Loader_nth:
  assumes "length data = FRAMESIZE" and "off \<le> HALFBUF"
    and "length (framebuffer s) = framebuffer_bound" and "k < FRAMESIZE"
  shows "framebuffer (Frame_Loader off data s) ! (off + k) = data ! k"
proof -
  have "off + length (take FRAMESIZE data) \<le> length (framebuffer s)"
    using assms by (simp add: framebuffer_bound_def BUFFERSIZE_def HALFBUF_def)
  moreover have "k < length (take FRAMESIZE data)"
    using assms by simp
  ultimately have "store_bytes off (take FRAMESIZE data) (framebuffer s) ! (off + k)
      = take FRAMESIZE data ! k"
    by (rule store_bytes_nth [rotated])
  then show ?thesis using assms by (simp add: Frame_Loader_def)
qed

lemma scan_loaded:
  assumes data: "length data = FRAMESIZE" and off: "off \<le> HALFBUF"
    and len: "length (framebuffer s) = framebuffer_bound"
    and s': "framebuffer s' = framebuffer (Frame_Loader off data s)"
    and sp: "startpix s' = word_of_nat off" and px: "pixel s' = 0"
  shows "fst (scan (nat pixelsframe) s') =
     map (\<lambda>p. Some (DAC_Output_Mapper (stored_pixel data p))) [0..<nat pixelsframe]"
proof -
  have len': "length (framebuffer s') = framebuffer_bound"
    using len by (simp add: s' Frame_Loader_def)
  have "fst (scan 1024 s') =
     map (\<lambda>p. Some (DAC_Output_Mapper
            (framebuffer s' ! (off + 3 * p), framebuffer s' ! (off + 3 * p + 1),
             framebuffer s' ! (off + 3 * p + 2)))) [0..<0 + 1024]"
    using sp off _ _ len' by (rule scan_emits) (simp_all add: px)
  also have "\<dots> = map (\<lambda>p. Some (DAC_Output_Mapper (stored_pixel data p))) [0..<0 + 1024]"
  proof (rule map_cong [OF refl])
    fix p :: nat
    assume "p \<in> set [0..<0 + 1024]"
    then have p: "3 * p < FRAMESIZE" "3 * p + 1 < FRAMESIZE" "3 * p + 2 < FRAMESIZE"
      by (simp_all add: FRAMESIZE_def)
    have "framebuffer s' ! (off + 3 * p) = data ! (3 * p)"
      "framebuffer s' ! (off + (3 * p + 1)) = data ! (3 * p + 1)"
      "framebuffer s' ! (off + (3 * p + 2)) = data ! (3 * p + 2)"
      unfolding s' using data off len p by (simp_all only: Frame_Loader_nth)
    then show "Some (DAC_Output_Mapper
            (framebuffer s' ! (off + 3 * p), framebuffer s' ! (off + 3 * p + 1),
             framebuffer s' ! (off + 3 * p + 2))) = Some (DAC_Output_Mapper (stored_pixel data p))"
      by (simp add: stored_pixel_def add.assoc)
  qed
  finally show ?thesis by (simp add: pixelsframe_def)
qed

lemma standby_offset_cases:
  "startpix s = 0 \<or> startpix s = word_of_nat HALFBUF \<Longrightarrow>
     unat (standby_offset s) \<le> HALFBUF \<and> unat (startpix s) \<le> HALFBUF"
  by (auto simp: standby_offset_def HALFBUF_def FRAMESIZE_def)

text \<open>
  Claim C8: round trip. A storage record of one frame that the Loader writes into the
  standby region, read pixel by pixel by the Pixel Clock after the exchange of the
  regions, gives on the three ports exactly the channel values of the record, pixel
  after pixel, each as the DAC Output Mapper writes it; the same holds for a record
  written into the region that is already active. The levels at the ladders are the
  channel values of the record, clamped to the DAC range.
\<close>

theorem frame_round_trip:
  assumes "length data = FRAMESIZE"
    and "length (framebuffer s) = framebuffer_bound"
    and "startpix s = 0 \<or> startpix s = word_of_nat HALFBUF"
    and "pixel s = 0"
  shows "fst (scan (nat pixelsframe) (swap_regions (Frame_Loader (unat (standby_offset s)) data s)))
           = map (\<lambda>p. Some (DAC_Output_Mapper (stored_pixel data p))) [0..<nat pixelsframe]
       \<and> fst (scan (nat pixelsframe) (Frame_Loader (unat (startpix s)) data s))
           = map (\<lambda>p. Some (DAC_Output_Mapper (stored_pixel data p))) [0..<nat pixelsframe]
       \<and> map (map_option dac_levels)
            (fst (scan (nat pixelsframe) (swap_regions (Frame_Loader (unat (standby_offset s)) data s))))
           = map (\<lambda>p. Some (clamped (stored_pixel data p))) [0..<nat pixelsframe]"
proof -
  note offs = standby_offset_cases [OF assms(3)]
  let ?v = "swap_regions (Frame_Loader (unat (standby_offset s)) data s)"
  let ?p = "Frame_Loader (unat (startpix s)) data s"
  have video: "fst (scan (nat pixelsframe) ?v)
      = map (\<lambda>p. Some (DAC_Output_Mapper (stored_pixel data p))) [0..<nat pixelsframe]"
    using assms(1) _ assms(2)
  proof (rule scan_loaded)
    show "unat (standby_offset s) \<le> HALFBUF" using offs by simp
    show "framebuffer ?v = framebuffer (Frame_Loader (unat (standby_offset s)) data s)"
      by (simp add: swap_regions_def)
    show "startpix ?v = word_of_nat (unat (standby_offset s))"
      by (simp add: swap_regions_def standby_offset_def Frame_Loader_def)
    show "pixel ?v = 0"
      using assms(4) by (simp add: swap_regions_def Frame_Loader_def)
  qed
  have picture: "fst (scan (nat pixelsframe) ?p)
      = map (\<lambda>p. Some (DAC_Output_Mapper (stored_pixel data p))) [0..<nat pixelsframe]"
    using assms(1) _ assms(2)
  proof (rule scan_loaded)
    show "unat (startpix s) \<le> HALFBUF" using offs by simp
    show "framebuffer ?p = framebuffer (Frame_Loader (unat (startpix s)) data s)"
      by simp
    show "startpix ?p = word_of_nat (unat (startpix s))"
      by (simp add: Frame_Loader_def)
    show "pixel ?p = 0"
      using assms(4) by (simp add: Frame_Loader_def)
  qed
  have "map (map_option dac_levels) (fst (scan (nat pixelsframe) ?v))
      = map (\<lambda>p. Some (clamped (stored_pixel data p))) [0..<nat pixelsframe]"
    by (simp only: video map_map) (simp add: comp_def dac_levels_mapper)
  with video picture show ?thesis by simp
qed

theorem frame_round_trip_witness:
  "length (replicate FRAMESIZE (200 :: byte)) = FRAMESIZE
   \<and> length (framebuffer startup) = framebuffer_bound
   \<and> (startpix startup = 0 \<or> startpix startup = word_of_nat HALFBUF)
   \<and> pixel startup = 0
   \<and> fst (scan (nat pixelsframe)
        (swap_regions (Frame_Loader (unat (standby_offset startup))
           (replicate FRAMESIZE 200) startup)))
      = map (\<lambda>p. Some (DAC_Output_Mapper (stored_pixel (replicate FRAMESIZE 200) p)))
          [0..<nat pixelsframe]"
proof -
  have h1: "length (replicate FRAMESIZE (200 :: byte)) = FRAMESIZE"
    by simp
  have h2: "length (framebuffer startup) = framebuffer_bound"
    by (simp add: startup_def)
  have h3: "startpix startup = 0 \<or> startpix startup = word_of_nat HALFBUF"
    by (simp add: startup_def)
  have h4: "pixel startup = 0"
    by (simp add: startup_def)
  from frame_round_trip [OF h1 h2 h3 h4] h1 h2 h3 h4 show ?thesis
    by blast
qed

end
